theory Spec2Isabelle
  imports Main "HOL-Library.Multiset" "HOL-Library.Sublist"
begin

section \<open>Python values, exceptions and the error decorator\<close>

text \<open>
  The exceptions the modelled code can meet. A computation that may raise returns
  \<open>py_error + 'a\<close>, \<open>Inl\<close> being the raised exception.
\<close>

datatype py_error =
    FileNotFoundError
  | PermissionError
  | NotADirectoryError
  | OSError
  | TypeError
  | ValueError
  | OverflowError
  | RegexError

datatype OnError = IGNORE | LOG | RAISE

text \<open>
  Modelled from the spec: the decorator \<open>catch\<close> of the package \<open>empire_commons.on_error\<close>
  is imported by the sources and is not part of them. Following spec sections 4.2 and 7, a
  failing call whose policy is not "raise" reports the error and returns the safe default
  configured at decoration time (\<open>value_to_return_on_error\<close>); under the policy "raise" the
  error propagates. The decorator sees only the exception: the local variables of the
  decorated function are gone when it runs.
\<close>

definition catch :: "OnError \<Rightarrow> 'v \<Rightarrow> (py_error + 'v) \<Rightarrow> py_error + 'v" where
  "catch default_on_error_behavior value_to_return_on_error r =
     (case r of
        Inr v \<Rightarrow> Inr v
      | Inl e \<Rightarrow> (if default_on_error_behavior = RAISE then Inl e
                 else Inr value_to_return_on_error))"

text \<open>\<open>PathLike = Path | str\<close>; \<open>from_path_like\<close> of \<open>path_class.py\<close>.\<close>

datatype path_like = PathStr string | PathObj string

fun from_path_like :: "path_like \<Rightarrow> string" where
  "from_path_like (PathObj p) = p"
| "from_path_like (PathStr p) = p"


section \<open>Directory scan (\<open>scan/scan.py\<close>)\<close>

text \<open>
  The part of the file system a scan can see, as a tree in the order in which
  \<open>os.scandir\<close> enumerates each directory. \<open>Unscannable n e\<close> is an entry whose
  \<open>is_dir()\<close> is true and on which \<open>os.scandir\<close> raises \<open>e\<close> (no permission, removed after
  it was listed); at the root it also stands for a path that does not exist.
\<close>

datatype node =
    File string
  | Dir string "node list"
  | Unscannable string py_error

fun node_name :: "node \<Rightarrow> string" where
  "node_name (File n) = n"
| "node_name (Dir n es) = n"
| "node_name (Unscannable n e) = n"

fun node_is_dir :: "node \<Rightarrow> bool" where
  "node_is_dir (File n) = False"
| "node_is_dir (Dir n es) = True"
| "node_is_dir (Unscannable n e) = True"

text \<open>What a callback may read of an \<open>os.DirEntry\<close>.\<close>

record DirEntry =
  name :: string
  path :: string
  is_dir :: bool

text \<open>
  \<open>DirEntry.path\<close> is the scanned path joined with the entry name: a separator is put
  between them unless the scanned path is empty or already ends with one (POSIX).
\<close>

definition entry_path :: "string \<Rightarrow> string \<Rightarrow> string" where
  "entry_path path' n =
     (if path' = [] \<or> last path' = CHR ''/'' then path' @ n else path' @ ''/'' @ n)"

definition dir_entry :: "string \<Rightarrow> node \<Rightarrow> DirEntry" where
  "dir_entry path' f =
     \<lparr>name = node_name f, path = entry_path path' (node_name f), is_dir = node_is_dir f\<rparr>"

text \<open>
  A callback receives the entry path, the directory flag, the entry and the keyword
  arguments; it returns a result, \<open>None\<close> (no match), or raises.
\<close>

type_synonym ('k, 'r) callback = "string \<Rightarrow> bool \<Rightarrow> DirEntry \<Rightarrow> 'k \<Rightarrow> py_error + 'r option"

text \<open>
  \<open>_recursion\<close>: \<open>recursion\<close> is one call (its \<open>os.scandir\<close>), \<open>scan_entries\<close> its \<open>for\<close>
  loop over the entries with the list \<open>results\<close> built so far.
\<close>

fun recursion :: "bool \<Rightarrow> ('k, 'r) callback \<Rightarrow> 'k \<Rightarrow> string \<Rightarrow> node \<Rightarrow> py_error + 'r list"
  and scan_entries ::
    "bool \<Rightarrow> ('k, 'r) callback \<Rightarrow> 'k \<Rightarrow> string \<Rightarrow> node list \<Rightarrow> 'r list \<Rightarrow> py_error + 'r list"
where
  "recursion recursive cb kwargs path' (File n) = Inl NotADirectoryError"
| "recursion recursive cb kwargs path' (Unscannable n e) = Inl e"
| "recursion recursive cb kwargs path' (Dir n es) = scan_entries recursive cb kwargs path' es []"
| "scan_entries recursive cb kwargs path' [] results = Inr results"
| "scan_entries recursive cb kwargs path' (f # fs) results =
     (case (if recursive \<and> node_is_dir f
            then recursion recursive cb kwargs (entry_path path' (node_name f)) f
            else Inr []) of
        Inl e \<Rightarrow> Inl e
      | Inr extension \<Rightarrow>
          (case cb (entry_path path' (node_name f)) (node_is_dir f) (dir_entry path' f) kwargs of
             Inl e \<Rightarrow> Inl e
           | Inr None \<Rightarrow> scan_entries recursive cb kwargs path' fs (results @ extension)
           | Inr (Some result) \<Rightarrow>
               scan_entries recursive cb kwargs path' fs (results @ extension @ [result])))"

text \<open>
  \<open>scan_directory\<close>, decorated with \<open>catch(default_on_error_behavior=OnError.LOG)\<close>. The
  decoration sets no \<open>value_to_return_on_error\<close>, so the value is the package's default and
  a parameter here; a Python value that is a list or \<open>None\<close> is a \<open>'r list option\<close>.
\<close>

definition scan_directory ::
  "'r list option \<Rightarrow> node \<Rightarrow> path_like \<Rightarrow> bool \<Rightarrow> ('k, 'r) callback \<Rightarrow> 'k
     \<Rightarrow> py_error + 'r list option" where
  "scan_directory value_to_return_on_error root path' recursive on_entry_found_callback kwargs =
     catch LOG value_to_return_on_error
       (case recursion recursive on_entry_found_callback kwargs (from_path_like path') root of
          Inl e \<Rightarrow> Inl e
        | Inr results \<Rightarrow> Inr (Some results))"

text \<open>The callback used when none is supplied: \<open>lambda w, x, y, z: w\<close>.\<close>

definition default_callback :: "('k, string) callback" where
  "default_callback w x y z = Inr (Some w)"

subsection \<open>Predefined and configurable callbacks\<close>

definition directories_only :: "('k, string) callback" where
  "directories_only entry_path' is_directory dir_entry' kwargs_dict =
     Inr (if is_directory then Some entry_path' else None)"

definition files_only :: "('k, string) callback" where
  "files_only entry_path' is_directory dir_entry' kwargs_dict =
     Inr (if \<not> is_directory then Some entry_path' else None)"

definition file_names_only :: "('k, string) callback" where
  "file_names_only entry_path' is_directory dir_entry' kwargs_dict =
     Inr (if \<not> is_directory then Some (name dir_entry') else None)"

text \<open>\<open>str.endswith\<close>.\<close>

definition endswith :: "string \<Rightarrow> string \<Rightarrow> bool" where
  "endswith s suffix' =
     (length suffix' \<le> length s \<and> drop (length s - length suffix') s = suffix')"

text \<open>The loop of \<open>_file_extensions\<close> and the closure that \<open>file_extensions\<close> returns.\<close>

fun file_extensions_loop :: "string list \<Rightarrow> string \<Rightarrow> DirEntry \<Rightarrow> string option" where
  "file_extensions_loop [] entry_path' dir_entry' = None"
| "file_extensions_loop (extension # extensions) entry_path' dir_entry' =
     (if endswith (name dir_entry') extension then Some entry_path'
      else file_extensions_loop extensions entry_path' dir_entry')"

definition file_extensions :: "string list \<Rightarrow> ('k, string) callback" where
  "file_extensions extensions =
     (\<lambda>entry_path' is_directory dir_entry' kwargs_dict.
        Inr (file_extensions_loop extensions entry_path' dir_entry'))"

text \<open>
  What \<open>re.Pattern.match\<close> can be handed in \<open>_match_pattern\<close>: a string, or a compiled
  pattern object. The regular-expression engine is a parameter: \<open>get_compiled_re\<close> compiles
  a pattern (or raises on a malformed one) and \<open>re_match p s\<close> says whether \<open>p\<close> matches at
  the start of the string \<open>s\<close>. \<open>Pattern.match\<close> raises \<open>TypeError\<close> on anything that is
  not a string.
\<close>

datatype 'p py_object = Str string | Pattern 'p

definition pattern_match :: "('p \<Rightarrow> string \<Rightarrow> bool) \<Rightarrow> 'p \<Rightarrow> 'p py_object \<Rightarrow> py_error + bool" where
  "pattern_match re_match compiled arg =
     (case arg of Str s \<Rightarrow> Inr (re_match compiled s) | Pattern q \<Rightarrow> Inl TypeError)"

text \<open>
  The closure \<open>_match_pattern\<close>: it binds \<open>name\<close> to the entry name and then calls
  \<open>compiled_pattern.match(compiled_pattern)\<close>.
\<close>

definition match_pattern_inner ::
  "('p \<Rightarrow> string \<Rightarrow> bool) \<Rightarrow> 'p \<Rightarrow> ('k, string) callback" where
  "match_pattern_inner re_match compiled_pattern entry_path' is_directory dir_entry' kwargs_dict =
     (let name' = name dir_entry' in
      case pattern_match re_match compiled_pattern (Pattern compiled_pattern) of
        Inl e \<Rightarrow> Inl e
      | Inr matched \<Rightarrow> Inr (if matched then Some entry_path' else None))"

definition match_pattern ::
  "(string \<Rightarrow> py_error + 'p) \<Rightarrow> ('p \<Rightarrow> string \<Rightarrow> bool) \<Rightarrow> string
     \<Rightarrow> py_error + ('k, string) callback" where
  "match_pattern get_compiled_re re_match pattern =
     (case get_compiled_re pattern of
        Inl e \<Rightarrow> Inl e
      | Inr compiled_pattern \<Rightarrow> Inr (match_pattern_inner re_match compiled_pattern))"

text \<open>
  What one pass of the loop body appends to \<open>results\<close> for the entry \<open>f\<close>: the results
  of the recursive call (when one is made) followed by the entry's own callback result
  (when it is not \<open>None\<close>).
\<close>

definition entry_results ::
  "bool \<Rightarrow> ('k, 'r) callback \<Rightarrow> 'k \<Rightarrow> string \<Rightarrow> node \<Rightarrow> py_error + 'r list" where
  "entry_results recursive cb kwargs path' f =
     (case (if recursive \<and> node_is_dir f
            then recursion recursive cb kwargs (entry_path path' (node_name f)) f
            else Inr []) of
        Inl e \<Rightarrow> Inl e
      | Inr sub \<Rightarrow>
          (case cb (entry_path path' (node_name f)) (node_is_dir f) (dir_entry path' f) kwargs of
             Inl e \<Rightarrow> Inl e
           | Inr own \<Rightarrow> Inr (sub @ (case own of None \<Rightarrow> [] | Some r \<Rightarrow> [r]))))"


section \<open>Lock-step reader (\<open>io_/read_swarm.py\<close>)\<close>

text \<open>
  A text file opened for reading: the text not read yet, whether the handle is closed,
  and the error its \<open>close()\<close> raises, if any. Every \<open>py_error\<close> is an \<open>Exception\<close>.
\<close>

record TextIO =
  buffer :: string
  closed :: bool
  close_error :: "py_error option"

text \<open>One line with its terminator, and the text after it; the empty string at the end.\<close>

fun split_line :: "string \<Rightarrow> string \<times> string" where
  "split_line [] = ([], [])"
| "split_line (c # cs) =
     (if c = CHR 0x0A then ([c], cs)
      else (case split_line cs of (line, rest) \<Rightarrow> (c # line, rest)))"

definition readline :: "TextIO \<Rightarrow> (py_error + string) \<times> TextIO" where
  "readline f =
     (if closed f then (Inl ValueError, f)
      else (case split_line (buffer f) of (line, rest) \<Rightarrow> (Inr line, f\<lparr>buffer := rest\<rparr>)))"

definition close_file :: "TextIO \<Rightarrow> (py_error + unit) \<times> TextIO" where
  "close_file f =
     (if closed f then (Inr (), f)
      else (case close_error f of
              None \<Rightarrow> (Inr (), f\<lparr>closed := True\<rparr>)
            | Some e \<Rightarrow> (Inl e, f\<lparr>closed := True\<rparr>)))"

text \<open>
  The object: \<open>_files\<close>, \<open>_file_handles\<close> (a \<open>dict\<close>, kept in insertion order, as an
  association list) and \<open>_container_type\<close> (a constructor taking the items, which may raise).
\<close>

type_synonym handles = "(string \<times> TextIO) list"

record 'c ReadSwarm =
  files :: "string list"
  file_handles :: handles
  container_type :: "(string option list \<Rightarrow> py_error + 'c) option"

definition init :: "string list \<Rightarrow> (string option list \<Rightarrow> py_error + 'c) option \<Rightarrow> 'c ReadSwarm" where
  "init files' container_type' =
     \<lparr>files = files', file_handles = [], container_type = container_type'\<rparr>"

text \<open>\<open>d[k] = v\<close>: an existing key keeps its position, a new key goes last.\<close>

fun dict_setitem :: "handles \<Rightarrow> string \<Rightarrow> TextIO \<Rightarrow> handles" where
  "dict_setitem [] k v = [(k, v)]"
| "dict_setitem ((k', v') # d) k v =
     (if k' = k then (k, v) # d else (k', v') # dict_setitem d k v)"

text \<open>
  \<open>open\<close>: \<open>builtin_open f\<close> is what \<open>open(f, "r", encoding="utf8")\<close> gives, a handle or an
  exception; an exception leaves the handles opened so far in the dictionary.
\<close>

fun open_loop ::
  "(string \<Rightarrow> py_error + TextIO) \<Rightarrow> string list \<Rightarrow> handles \<Rightarrow> (py_error + unit) \<times> handles" where
  "open_loop builtin_open [] hs = (Inr (), hs)"
| "open_loop builtin_open (f # fs) hs =
     (case builtin_open f of
        Inl e \<Rightarrow> (Inl e, hs)
      | Inr h \<Rightarrow> open_loop builtin_open fs (dict_setitem hs f h))"

definition open_swarm ::
  "(string \<Rightarrow> py_error + TextIO) \<Rightarrow> 'c ReadSwarm \<Rightarrow> (py_error + unit) \<times> 'c ReadSwarm" where
  "open_swarm builtin_open self =
     (case open_loop builtin_open (files self) (file_handles self) of
        (r, hs) \<Rightarrow> (r, self\<lparr>file_handles := hs\<rparr>))"

definition read_line_or_default :: "TextIO \<Rightarrow> string option \<Rightarrow> string option \<times> TextIO" where
  "read_line_or_default f default' =
     (case readline f of
        (Inr line, f') \<Rightarrow> (Some line, f')
      | (Inl e, f') \<Rightarrow> (default', f'))"

text \<open>The generator of \<open>read_line\<close> over \<open>_file_handles.values()\<close>, in dictionary order.\<close>

fun read_items :: "handles \<Rightarrow> string option list \<times> handles" where
  "read_items [] = ([], [])"
| "read_items ((k, f) # hs) =
     (case read_line_or_default f None of
        (item, f') \<Rightarrow> (case read_items hs of (items, hs') \<Rightarrow> (item # items, (k, f') # hs')))"

text \<open>Truth value of an item: \<open>None\<close> and the empty string are false.\<close>

definition truthy :: "string option \<Rightarrow> bool" where
  "truthy item = (case item of None \<Rightarrow> False | Some s \<Rightarrow> s \<noteq> [])"

datatype 'c record_read = Tuple "string option list" | Container 'c

definition read_line :: "'c ReadSwarm \<Rightarrow> (py_error + 'c record_read option) \<times> 'c ReadSwarm" where
  "read_line self =
     (case read_items (file_handles self) of
        (items, hs) \<Rightarrow>
          (if \<not> list_ex truthy items then Inr None
           else (case container_type self of
                   Some ct \<Rightarrow> (case ct items of Inl e \<Rightarrow> Inl e | Inr c \<Rightarrow> Inr (Some (Container c)))
                 | None \<Rightarrow> Inr (Some (Tuple items))),
           self\<lparr>file_handles := hs\<rparr>))"

text \<open>\<open>try: ... except Exception: pass\<close> around a statement.\<close>

definition try_except_pass :: "(py_error + unit) \<times> 's \<Rightarrow> (py_error + unit) \<times> 's" where
  "try_except_pass r = (case r of (Inl e, s) \<Rightarrow> (Inr (), s) | (Inr u, s) \<Rightarrow> (Inr u, s))"

fun close_loop :: "handles \<Rightarrow> (py_error + unit) \<times> handles" where
  "close_loop [] = (Inr (), [])"
| "close_loop ((k, f) # hs) =
     (case try_except_pass (close_file f) of
        (Inl e, f') \<Rightarrow> (Inl e, (k, f') # hs)
      | (Inr u, f') \<Rightarrow> (case close_loop hs of (r, hs') \<Rightarrow> (r, (k, f') # hs')))"

definition close :: "'c ReadSwarm \<Rightarrow> (py_error + unit) \<times> 'c ReadSwarm" where
  "close self =
     (case close_loop (file_handles self) of (r, hs) \<Rightarrow> (r, self\<lparr>file_handles := hs\<rparr>))"

text \<open>The state after \<open>n\<close> calls, whatever they returned.\<close>

definition after_reads :: "nat \<Rightarrow> 'c ReadSwarm \<Rightarrow> 'c ReadSwarm" where
  "after_reads n self = ((\<lambda>s. snd (read_line s)) ^^ n) self"

definition after_closes :: "nat \<Rightarrow> 'c ReadSwarm \<Rightarrow> 'c ReadSwarm" where
  "after_closes n self = ((\<lambda>s. snd (close s)) ^^ n) self"


section \<open>File-system facade (\<open>file_system/_fs.py\<close>)\<close>

text \<open>The host file system as \<open>os.path\<close> answers about it.\<close>

record os_path =
  isfile :: "string \<Rightarrow> bool"
  isdir :: "string \<Rightarrow> bool"
  islink :: "string \<Rightarrow> bool"


definition is_directory :: "os_path \<Rightarrow> path_like \<Rightarrow> py_error + bool" where
  "is_directory os path' = catch IGNORE False (Inr (isdir os (from_path_like path')))"

definition is_link :: "os_path \<Rightarrow> path_like \<Rightarrow> py_error + bool" where
  "is_link os path' = catch IGNORE False (Inr False)"







section \<open>Properties of the directory scan\<close>

lemma scan_entries_Cons:
  "scan_entries rc cb kw p (f # fs) acc =
     (case entry_results rc cb kw p f of
        Inl e \<Rightarrow> Inl e
      | Inr rs \<Rightarrow> scan_entries rc cb kw p fs (acc @ rs))"
proof -
  define sub where
    "sub = (if rc \<and> node_is_dir f then recursion rc cb kw (entry_path p (node_name f)) f
            else Inr [])"
  define own where
    "own = cb (entry_path p (node_name f)) (node_is_dir f) (dir_entry p f) kw"
  have lhs: "scan_entries rc cb kw p (f # fs) acc =
      (case sub of
         Inl e \<Rightarrow> Inl e
       | Inr extension \<Rightarrow>
           (case own of
              Inl e \<Rightarrow> Inl e
            | Inr None \<Rightarrow> scan_entries rc cb kw p fs (acc @ extension)
            | Inr (Some result) \<Rightarrow> scan_entries rc cb kw p fs (acc @ extension @ [result])))"
    unfolding sub_def own_def by (rule scan_entries.simps)
  have rhs: "entry_results rc cb kw p f =
      (case sub of
         Inl e \<Rightarrow> Inl e
       | Inr s \<Rightarrow>
           (case own of
              Inl e \<Rightarrow> Inl e
            | Inr w \<Rightarrow> Inr (s @ (case w of None \<Rightarrow> [] | Some r \<Rightarrow> [r]))))"
    unfolding sub_def own_def by (rule entry_results_def)
  show ?thesis
    unfolding lhs rhs by (simp split: sum.split option.split)
qed

lemma scan_entries_append:
  "scan_entries rc cb kw p (xs @ ys) acc =
     (case scan_entries rc cb kw p xs acc of
        Inl e \<Rightarrow> Inl e
      | Inr mid \<Rightarrow> scan_entries rc cb kw p ys mid)"
proof (induction xs arbitrary: acc)
  case Nil
  show ?case by simp
next
  case (Cons f xs)
  show ?case
    by (cases "entry_results rc cb kw p f")
       (simp_all only: append_Cons scan_entries_Cons sum.case Cons.IH)
qed

lemma scan_entries_acc:
  "scan_entries rc cb kw p fs acc =
     (case scan_entries rc cb kw p fs [] of Inl e \<Rightarrow> Inl e | Inr out \<Rightarrow> Inr (acc @ out))"
proof (induction fs arbitrary: acc)
  case Nil
  show ?case by simp
next
  case (Cons f fs)
  show ?case
  proof (cases "entry_results rc cb kw p f")
    case (Inl e)
    then show ?thesis by (simp only: scan_entries_Cons sum.case)
  next
    case (Inr rs)
    have "scan_entries rc cb kw p fs (acc @ rs) =
        (case scan_entries rc cb kw p fs [] of Inl e \<Rightarrow> Inl e | Inr out \<Rightarrow> Inr ((acc @ rs) @ out))"
      by (rule Cons.IH)
    moreover have "scan_entries rc cb kw p fs ([] @ rs) =
        (case scan_entries rc cb kw p fs [] of Inl e \<Rightarrow> Inl e | Inr out \<Rightarrow> Inr (([] @ rs) @ out))"
      by (rule Cons.IH)
    ultimately show ?thesis
      using Inr by (simp add: scan_entries_Cons del: scan_entries.simps split: sum.split)
  qed
qed

lemma scan_entries_decompose:
  assumes "scan_entries rc cb kw p (xs @ f # ys) [] = Inr out"
  shows "\<exists>pre rs post.
           scan_entries rc cb kw p xs [] = Inr pre \<and>
           entry_results rc cb kw p f = Inr rs \<and>
           scan_entries rc cb kw p ys [] = Inr post \<and>
           out = pre @ rs @ post"
proof -
  from assms obtain pre where pre: "scan_entries rc cb kw p xs [] = Inr pre"
    and rest: "scan_entries rc cb kw p (f # ys) pre = Inr out"
    by (auto simp add: scan_entries_append simp del: scan_entries.simps split: sum.splits)
  from rest obtain rs where rs: "entry_results rc cb kw p f = Inr rs"
    and tl: "scan_entries rc cb kw p ys (pre @ rs) = Inr out"
    by (auto simp add: scan_entries_Cons simp del: scan_entries.simps split: sum.splits)
  from tl obtain post where post: "scan_entries rc cb kw p ys [] = Inr post"
    and out: "out = (pre @ rs) @ post"
    by (subst (asm) scan_entries_acc) (auto split: sum.splits)
  from pre rs post out show ?thesis by simp
qed

lemma entry_results_Inr:
  assumes "entry_results rc cb kw p f = Inr rs"
  shows "\<exists>sub own.
           (if rc \<and> node_is_dir f then recursion rc cb kw (entry_path p (node_name f)) f
            else Inr []) = Inr sub \<and>
           cb (entry_path p (node_name f)) (node_is_dir f) (dir_entry p f) kw = Inr own \<and>
           rs = sub @ (case own of None \<Rightarrow> [] | Some r \<Rightarrow> [r])"
proof -
  define sub where
    "sub = (if rc \<and> node_is_dir f then recursion rc cb kw (entry_path p (node_name f)) f
            else Inr [])"
  define own where
    "own = cb (entry_path p (node_name f)) (node_is_dir f) (dir_entry p f) kw"
  have "(case sub of
           Inl e \<Rightarrow> Inl e
         | Inr s \<Rightarrow>
             (case own of
                Inl e \<Rightarrow> Inl e
              | Inr w \<Rightarrow> Inr (s @ (case w of None \<Rightarrow> [] | Some r \<Rightarrow> [r])))) = Inr rs"
    using assms unfolding sub_def own_def entry_results_def .
  then have "\<exists>s w. sub = Inr s \<and> own = Inr w \<and> rs = s @ (case w of None \<Rightarrow> [] | Some r \<Rightarrow> [r])"
    by (cases sub; cases own) auto
  then show ?thesis unfolding sub_def own_def .
qed

text \<open>
  C2. In a recursive scan that returns, the output is the concatenation, in enumeration
  order, of one block per entry; the block of the entry at position \<open>i\<close> is the output of
  the recursive scan of that entry (when it is a directory) immediately followed by the
  entry's own callback result, which is present exactly when the callback did not return
  \<open>None\<close>.
\<close>

theorem scan_subtree_before_entry:
  assumes "recursion True cb kw (from_path_like pl) (Dir n fs) = Inr out"
    and "i < length fs"
  shows "scan_directory v (Dir n fs) pl True cb kw = Inr (Some out) \<and>
    (\<exists>pre sub own post.
       scan_entries True cb kw (from_path_like pl) (take i fs) [] = Inr pre \<and>
       (if node_is_dir (fs ! i)
        then recursion True cb kw (entry_path (from_path_like pl) (node_name (fs ! i))) (fs ! i)
        else Inr []) = Inr sub \<and>
       cb (entry_path (from_path_like pl) (node_name (fs ! i))) (node_is_dir (fs ! i))
          (dir_entry (from_path_like pl) (fs ! i)) kw = Inr own \<and>
       scan_entries True cb kw (from_path_like pl) (drop (Suc i) fs) [] = Inr post \<and>
       out = pre @ sub @ (case own of None \<Rightarrow> [] | Some r \<Rightarrow> [r]) @ post)"
proof
  show "scan_directory v (Dir n fs) pl True cb kw = Inr (Some out)"
    using assms(1) by (simp add: scan_directory_def catch_def)
next
  have split: "fs = take i fs @ fs ! i # drop (Suc i) fs"
    using assms(2) by (simp add: id_take_nth_drop)
  have "scan_entries True cb kw (from_path_like pl) (take i fs @ fs ! i # drop (Suc i) fs) [] = Inr out"
    using assms(1) split by simp
  from scan_entries_decompose [OF this]
  obtain pre rs post where pre: "scan_entries True cb kw (from_path_like pl) (take i fs) [] = Inr pre"
    and rs: "entry_results True cb kw (from_path_like pl) (fs ! i) = Inr rs"
    and post: "scan_entries True cb kw (from_path_like pl) (drop (Suc i) fs) [] = Inr post"
    and out: "out = pre @ rs @ post"
    by blast
  from entry_results_Inr [OF rs] pre post out
  show "\<exists>pre sub own post.
       scan_entries True cb kw (from_path_like pl) (take i fs) [] = Inr pre \<and>
       (if node_is_dir (fs ! i)
        then recursion True cb kw (entry_path (from_path_like pl) (node_name (fs ! i))) (fs ! i)
        else Inr []) = Inr sub \<and>
       cb (entry_path (from_path_like pl) (node_name (fs ! i))) (node_is_dir (fs ! i))
          (dir_entry (from_path_like pl) (fs ! i)) kw = Inr own \<and>
       scan_entries True cb kw (from_path_like pl) (drop (Suc i) fs) [] = Inr post \<and>
       out = pre @ sub @ (case own of None \<Rightarrow> [] | Some r \<Rightarrow> [r]) @ post"
    by auto
qed

theorem scan_subtree_before_entry_witness:
  "recursion True files_only () (from_path_like (PathStr ''d''))
       (Dir ''d'' [File ''x.txt'', Dir ''sub'' [File ''z.txt'']])
     = Inr [''d/x.txt'', ''d/sub/z.txt''] \<and>
   (1::nat) < length [File ''x.txt'', Dir ''sub'' [File ''z.txt'']] \<and>
   scan_directory None (Dir ''d'' [File ''x.txt'', Dir ''sub'' [File ''z.txt'']])
       (PathStr ''d'') True files_only () = Inr (Some [''d/x.txt'', ''d/sub/z.txt''])"
proof -
  have r: "recursion True files_only () (from_path_like (PathStr ''d''))
       (Dir ''d'' [File ''x.txt'', Dir ''sub'' [File ''z.txt'']])
     = Inr [''d/x.txt'', ''d/sub/z.txt'']"
    by (simp add: files_only_def entry_path_def dir_entry_def)
  have l: "(1::nat) < length [File ''x.txt'', Dir ''sub'' [File ''z.txt'']]"
    by simp
  from scan_subtree_before_entry [OF r l, of None] r l show ?thesis
    by blast
qed

lemma scan_entries_default_flat:
  assumes "rc \<longrightarrow> (\<forall>f\<in>set fs. \<not> node_is_dir f)"
  shows "scan_entries rc default_callback kw p fs acc =
           Inr (acc @ map (\<lambda>f. entry_path p (node_name f)) fs)"
  using assms by (induction fs arbitrary: acc) (auto simp add: default_callback_def)

text \<open>
  C1 (amended). Let a directory hold exactly \<open>x.txt\<close>, \<open>y.log\<close> and the directory \<open>sub\<close>
  with the single file \<open>z.txt\<close>, enumerated in any order. With the default callback the
  scan that does not recurse returns the three paths of \<open>x.txt\<close>, \<open>y.log\<close> and \<open>sub\<close>; the
  recursive scan returns these three and the path of \<open>sub/z.txt\<close>, the latter immediately
  before the path of \<open>sub\<close>.
\<close>

theorem scan_example_default_callback:
  assumes "mset es = {#File ''x.txt'', File ''y.log'', Dir ''sub'' [File ''z.txt'']#}"
  shows "\<exists>flat deep.
      scan_directory v (Dir d es) (PathStr p) False default_callback kw = Inr (Some flat) \<and>
      mset flat = {#entry_path p ''x.txt'', entry_path p ''y.log'', entry_path p ''sub''#} \<and>
      scan_directory v (Dir d es) (PathStr p) True default_callback kw = Inr (Some deep) \<and>
      mset deep = {#entry_path p ''x.txt'', entry_path p ''y.log'',
                    entry_path (entry_path p ''sub'') ''z.txt'', entry_path p ''sub''#} \<and>
      sublist [entry_path (entry_path p ''sub'') ''z.txt'', entry_path p ''sub''] deep"
proof -
  let ?g = "\<lambda>f. entry_path p (node_name f)"
  let ?S = "Dir ''sub'' [File ''z.txt'']"
  have flat: "scan_directory v (Dir d es) (PathStr p) False default_callback kw
                = Inr (Some (map ?g es))"
    by (simp add: scan_directory_def catch_def scan_entries_default_flat)
  have "mset (map ?g es) = image_mset ?g (mset es)"
    by simp
  then have mflat: "mset (map ?g es)
      = {#entry_path p ''x.txt'', entry_path p ''y.log'', entry_path p ''sub''#}"
    by (simp add: assms)
  have "?S \<in># mset es"
    by (simp add: assms)
  then have "?S \<in> set es"
    by simp
  then obtain xs ys where es: "es = xs @ ?S # ys"
    by (auto simp add: in_set_conv_decomp)
  have rest: "mset xs + mset ys = {#File ''x.txt'', File ''y.log''#}"
    using assms unfolding es by simp
  have "set_mset (mset xs + mset ys) = {File ''x.txt'', File ''y.log''}"
    unfolding rest by simp
  then have files: "\<forall>f\<in>set xs \<union> set ys. \<not> node_is_dir f"
    by auto
  have pre: "scan_entries True default_callback kw p xs [] = Inr (map ?g xs)"
    using files by (simp add: scan_entries_default_flat)
  have sub: "entry_results True default_callback kw p ?S
      = Inr [entry_path (entry_path p ''sub'') ''z.txt'', entry_path p ''sub'']"
    by (simp add: entry_results_def default_callback_def)
  have post: "scan_entries True default_callback kw p ys acc = Inr (acc @ map ?g ys)" for acc
    using files by (simp add: scan_entries_default_flat)
  let ?deep = "map ?g xs @ [entry_path (entry_path p ''sub'') ''z.txt'', entry_path p ''sub'']
                 @ map ?g ys"
  have "scan_entries True default_callback kw p es [] = Inr ?deep"
    unfolding es by (simp only: scan_entries_append scan_entries_Cons pre sub post sum.case append_assoc)
  then have deep: "scan_directory v (Dir d es) (PathStr p) True default_callback kw
      = Inr (Some ?deep)"
    by (simp add: scan_directory_def catch_def)
  have "mset ?deep = image_mset ?g (mset xs + mset ys)
      + {#entry_path (entry_path p ''sub'') ''z.txt'', entry_path p ''sub''#}"
    by simp
  then have mdeep: "mset ?deep = {#entry_path p ''x.txt'', entry_path p ''y.log'',
                    entry_path (entry_path p ''sub'') ''z.txt'', entry_path p ''sub''#}"
    unfolding rest by simp
  have adj: "sublist [entry_path (entry_path p ''sub'') ''z.txt'', entry_path p ''sub''] ?deep"
    unfolding sublist_def by blast
  from flat mflat deep mdeep adj show ?thesis
    by blast
qed

theorem scan_example_default_callback_witness:
  "mset [File ''y.log'', Dir ''sub'' [File ''z.txt''], File ''x.txt'']
     = {#File ''x.txt'', File ''y.log'', Dir ''sub'' [File ''z.txt'']#} \<and>
   (\<exists>flat deep.
      scan_directory None (Dir ''d'' [File ''y.log'', Dir ''sub'' [File ''z.txt''], File ''x.txt''])
        (PathStr ''d'') False default_callback () = Inr (Some flat) \<and>
      mset flat = {#''d/x.txt'', ''d/y.log'', ''d/sub''#} \<and>
      scan_directory None (Dir ''d'' [File ''y.log'', Dir ''sub'' [File ''z.txt''], File ''x.txt''])
        (PathStr ''d'') True default_callback () = Inr (Some deep) \<and>
      mset deep = {#''d/x.txt'', ''d/y.log'', ''d/sub/z.txt'', ''d/sub''#} \<and>
      sublist [''d/sub/z.txt'', ''d/sub''] deep)"
proof -
  have m: "mset [File ''y.log'', Dir ''sub'' [File ''z.txt''], File ''x.txt'']
     = {#File ''x.txt'', File ''y.log'', Dir ''sub'' [File ''z.txt'']#}"
    by simp
  have e: "entry_path ''d'' ''x.txt'' = ''d/x.txt''" "entry_path ''d'' ''y.log'' = ''d/y.log''"
    "entry_path ''d'' ''sub'' = ''d/sub''" "entry_path ''d/sub'' ''z.txt'' = ''d/sub/z.txt''"
    by (simp_all add: entry_path_def)
  from scan_example_default_callback [OF m, of None "''d''" "''d''" "()"] m show ?thesis
    unfolding e by blast
qed

text \<open>
  C1, as stated, fails: without recursion the scan of that directory returns three
  results, the third being the path of the directory \<open>sub\<close>, and so neither ordering of
  the two file paths.
\<close>

theorem scan_example_nonrecursive_counterexample:
  "scan_directory None (Dir ''d'' [File ''x.txt'', File ''y.log'', Dir ''sub'' [File ''z.txt'']])
      (PathStr ''d'') False default_callback ()
     = Inr (Some [''d/x.txt'', ''d/y.log'', ''d/sub'']) \<and>
   scan_directory None (Dir ''d'' [File ''x.txt'', File ''y.log'', Dir ''sub'' [File ''z.txt'']])
      (PathStr ''d'') False default_callback ()
     \<noteq> Inr (Some [''d/x.txt'', ''d/y.log'']) \<and>
   scan_directory None (Dir ''d'' [File ''x.txt'', File ''y.log'', Dir ''sub'' [File ''z.txt'']])
      (PathStr ''d'') False default_callback ()
     \<noteq> Inr (Some [''d/y.log'', ''d/x.txt''])"
  by (simp add: scan_directory_def catch_def default_callback_def entry_path_def dir_entry_def)

text \<open>
  C3 (amended). Under the default policy a scan in which \<open>os.scandir\<close> or the callback
  raises does not raise: it returns the value the decorator is configured to return on an
  error, whatever results the loops had collected; a root path that cannot be scanned
  gives that value at once.
\<close>

theorem scan_error_returns_fallback:
  assumes "recursion rc cb kw (from_path_like pl) root = Inl e"
  shows "scan_directory v root pl rc cb kw = Inr v \<and>
         scan_directory v (Unscannable n e) pl rc cb kw = Inr v"
  using assms by (simp add: scan_directory_def catch_def)

theorem scan_error_returns_fallback_witness:
  "recursion True default_callback () (from_path_like (PathStr ''d''))
       (Dir ''d'' [File ''x.txt'', Unscannable ''sub'' PermissionError]) = Inl PermissionError \<and>
   scan_directory (Some [''fallback'']) (Dir ''d'' [File ''x.txt'', Unscannable ''sub'' PermissionError])
       (PathStr ''d'') True default_callback () = Inr (Some [''fallback''])"
proof -
  have r: "recursion True default_callback () (from_path_like (PathStr ''d''))
       (Dir ''d'' [File ''x.txt'', Unscannable ''sub'' PermissionError]) = Inl PermissionError"
    by (simp add: default_callback_def)
  from scan_error_returns_fallback [OF r, of "Some [''fallback'']"] r show ?thesis
    by blast
qed

text \<open>
  C3, as stated, fails. In a recursive scan of a directory holding \<open>x.txt\<close> and then a
  directory \<open>sub\<close> that may not be read, the loop has collected the path of \<open>x.txt\<close> when
  \<open>os.scandir\<close> raises on \<open>sub\<close>; the call returns the decorator's value (\<open>None\<close>, or an
  empty list), not the list holding that path.
\<close>

theorem scan_partial_results_counterexample:
  "scan_entries True default_callback () ''d'' [File ''x.txt''] [] = Inr [''d/x.txt''] \<and>
   recursion True default_callback () ''d/sub'' (Unscannable ''sub'' PermissionError)
     = Inl PermissionError \<and>
   scan_directory None (Dir ''d'' [File ''x.txt'', Unscannable ''sub'' PermissionError])
       (PathStr ''d'') True default_callback () = Inr None \<and>
   scan_directory (Some []) (Dir ''d'' [File ''x.txt'', Unscannable ''sub'' PermissionError])
       (PathStr ''d'') True default_callback () = Inr (Some []) \<and>
   scan_directory (Some []) (Dir ''d'' [File ''x.txt'', Unscannable ''sub'' PermissionError])
       (PathStr ''d'') True default_callback () \<noteq> Inr (Some [''d/x.txt''])"
  by (simp add: scan_directory_def catch_def default_callback_def entry_path_def dir_entry_def)

text \<open>
  C4. The callback built by \<open>match_pattern\<close> hands the compiled pattern, not the entry
  name, to \<open>Pattern.match\<close>: for every pattern that compiles and every entry it raises
  \<open>TypeError\<close>, so it returns neither the entry path nor \<open>None\<close>, and a scan using it over
  a directory that is not empty ends in the decorator's error value.
\<close>

theorem match_pattern_raises:
  assumes "match_pattern get_compiled_re re_match pattern = Inr cb"
  shows "cb entry_path' isd dir_entry' kw = Inl TypeError \<and>
         scan_directory v (Dir d (f # fs)) pl rc cb kw = Inr v"
proof -
  from assms obtain compiled where cb: "cb = match_pattern_inner re_match compiled"
    by (auto simp add: match_pattern_def split: sum.splits)
  have raises: "cb a b c k = Inl TypeError" for a b c k
    unfolding cb by (simp add: match_pattern_inner_def pattern_match_def)
  have "\<exists>e. entry_results rc cb kw (from_path_like pl) f = Inl e"
    unfolding entry_results_def
    by (cases "if rc \<and> node_is_dir f
          then recursion rc cb kw (entry_path (from_path_like pl) (node_name f)) f else Inr []")
       (simp_all only: sum.case raises, blast+)
  then obtain e where "scan_entries rc cb kw (from_path_like pl) (f # fs) [] = Inl e"
    by (auto simp only: scan_entries_Cons sum.case)
  then have "scan_directory v (Dir d (f # fs)) pl rc cb kw = Inr v"
    by (simp add: scan_directory_def catch_def)
  with raises show ?thesis
    by simp
qed

theorem match_pattern_raises_witness:
  "match_pattern (\<lambda>s. Inr s) (\<lambda>p s. take (length p) s = p) ''x''
     = Inr (match_pattern_inner (\<lambda>p s. take (length p) s = p) ''x'') \<and>
   match_pattern_inner (\<lambda>p s. take (length p) s = p) ''x'' ''d/x.txt'' False
       \<lparr>name = ''x.txt'', path = ''d/x.txt'', is_dir = False\<rparr> () = Inl TypeError \<and>
   scan_directory None (Dir ''d'' [File ''x.txt'']) (PathStr ''d'') False
       (match_pattern_inner (\<lambda>p s. take (length p) s = p) ''x'') () = Inr None"
proof -
  have m: "match_pattern (\<lambda>s. Inr s) (\<lambda>p s. take (length p) s = p) ''x''
     = Inr (match_pattern_inner (\<lambda>p s. take (length p) s = p) ''x'')"
    by (simp add: match_pattern_def)
  show ?thesis
    by (simp add: m match_pattern_raises [OF m])
qed

lemma endswith_suffix: "endswith s e = suffix e s"
proof
  assume "endswith s e"
  then have "s = take (length s - length e) s @ e"
    unfolding endswith_def by (metis append_take_drop_id)
  then show "suffix e s"
    unfolding suffix_def by blast
next
  assume "suffix e s"
  then obtain zs where "s = zs @ e"
    unfolding suffix_def by blast
  then show "endswith s e"
    unfolding endswith_def by simp
qed

lemma file_extensions_loop_eq:
  "file_extensions_loop exts ep de =
     (if \<exists>e\<in>set exts. suffix e (name de) then Some ep else None)"
  by (induction exts) (simp_all add: endswith_suffix)

lemma scan_entries_file_extensions_flat:
  "scan_entries False (file_extensions exts) kw p fs acc =
     Inr (acc @ map (\<lambda>f. entry_path p (node_name f))
                   (filter (\<lambda>f. \<exists>e\<in>set exts. suffix e (node_name f)) fs))"
  by (induction fs arbitrary: acc)
     (simp_all add: file_extensions_def file_extensions_loop_eq dir_entry_def)

text \<open>
  C8. The callback built by \<open>file_extensions\<close> returns the entry path exactly when one
  of the configured extensions is a suffix of the entry name, whatever the entry path is,
  and \<open>None\<close> otherwise; a scan without recursion therefore keeps the paths of the entries
  whose name has such a suffix, in enumeration order, and over \<open>a.txt\<close>, \<open>b.md\<close>, \<open>c.py\<close>
  with the extensions \<open>.txt\<close> and \<open>.md\<close> it returns the paths of \<open>a.txt\<close> and \<open>b.md\<close>.
\<close>

theorem file_extensions_suffix:
  "file_extensions exts ep isd de kw
     = Inr (if \<exists>e\<in>set exts. suffix e (name de) then Some ep else None) \<and>
   scan_directory v (Dir d fs) pl False (file_extensions exts) kw
     = Inr (Some (map (\<lambda>f. entry_path (from_path_like pl) (node_name f))
                      (filter (\<lambda>f. \<exists>e\<in>set exts. suffix e (node_name f)) fs))) \<and>
   scan_directory v (Dir d [File ''a.txt'', File ''b.md'', File ''c.py'']) pl False
       (file_extensions [''.txt'', ''.md'']) kw
     = Inr (Some [entry_path (from_path_like pl) ''a.txt'', entry_path (from_path_like pl) ''b.md''])"
proof (intro conjI)
  show "file_extensions exts ep isd de kw
     = Inr (if \<exists>e\<in>set exts. suffix e (name de) then Some ep else None)"
    by (simp only: file_extensions_def file_extensions_loop_eq)
next
  show "scan_directory v (Dir d fs) pl False (file_extensions exts) kw
     = Inr (Some (map (\<lambda>f. entry_path (from_path_like pl) (node_name f))
                      (filter (\<lambda>f. \<exists>e\<in>set exts. suffix e (node_name f)) fs)))"
    by (simp add: scan_directory_def catch_def scan_entries_file_extensions_flat)
next
  have "scan_entries False (file_extensions [''.txt'', ''.md'']) kw (from_path_like pl)
          [File ''a.txt'', File ''b.md'', File ''c.py''] []
        = Inr [entry_path (from_path_like pl) ''a.txt'', entry_path (from_path_like pl) ''b.md'']"
    by (simp add: file_extensions_def endswith_def dir_entry_def)
  then show "scan_directory v (Dir d [File ''a.txt'', File ''b.md'', File ''c.py'']) pl False
       (file_extensions [''.txt'', ''.md'']) kw
     = Inr (Some [entry_path (from_path_like pl) ''a.txt'', entry_path (from_path_like pl) ''b.md''])"
    by (simp add: scan_directory_def catch_def)
qed

theorem file_extensions_suffix_witness:
  "file_extensions [''.txt'', ''.md''] ''d/a.txt'' False
       \<lparr>name = ''a.txt'', path = ''d/a.txt'', is_dir = False\<rparr> () = Inr (Some ''d/a.txt'') \<and>
   file_extensions [''.txt'', ''.md''] ''d.md/c.py'' False
       \<lparr>name = ''c.py'', path = ''d.md/c.py'', is_dir = False\<rparr> () = Inr None \<and>
   scan_directory None (Dir ''d'' [File ''a.txt'', File ''b.md'', File ''c.py'']) (PathStr ''d'') False
       (file_extensions [''.txt'', ''.md'']) () = Inr (Some [''d/a.txt'', ''d/b.md''])"
proof -
  have a: "(\<exists>e\<in>set [''.txt'', ''.md'']. suffix e ''a.txt'')"
    by (simp add: suffix_def)
  have c: "\<not> (\<exists>e\<in>set [''.txt'', ''.md'']. suffix e ''c.py'')"
    by (simp add: suffix_def)
  have e: "entry_path ''d'' ''a.txt'' = ''d/a.txt''" "entry_path ''d'' ''b.md'' = ''d/b.md''"
    by (simp_all add: entry_path_def)
  from file_extensions_suffix [of "[''.txt'', ''.md'']" "''d/a.txt''" False
      "\<lparr>name = ''a.txt'', path = ''d/a.txt'', is_dir = False\<rparr>" "()" None "''d''" "[]" "PathStr ''d''"]
    file_extensions_suffix [of "[''.txt'', ''.md'']" "''d.md/c.py''" False
      "\<lparr>name = ''c.py'', path = ''d.md/c.py'', is_dir = False\<rparr>" "()" None "''d''" "[]" "PathStr ''d''"]
    a c e
  show ?thesis
    by simp
qed


section \<open>Properties of the lock-step reader\<close>

lemma read_items_eq:
  "read_items hs =
     (map (\<lambda>(k, f). fst (read_line_or_default f None)) hs,
      map (\<lambda>(k, f). (k, snd (readline f))) hs)"
  by (induction hs) (auto simp add: read_line_or_default_def split: prod.splits sum.splits)

lemma read_line_handles:
  "file_handles (snd (read_line self)) = map (\<lambda>(k, f). (k, snd (readline f))) (file_handles self)"
  by (simp add: read_line_def read_items_eq)

lemma after_reads_Suc: "after_reads (Suc n) self = snd (read_line (after_reads n self))"
  by (simp add: after_reads_def)

lemma after_reads_handles:
  "file_handles (after_reads n self) =
     map (\<lambda>(k, f). (k, ((\<lambda>h. snd (readline h)) ^^ n) f)) (file_handles self)"
proof (induction n)
  case 0
  show ?case by (simp add: after_reads_def)
next
  case (Suc n)
  show ?case
    by (simp add: after_reads_Suc read_line_handles Suc.IH case_prod_unfold comp_def)
qed

lemma read_line_container_type:
  "container_type (snd (read_line self)) = container_type self"
  by (simp add: read_line_def case_prod_unfold)

lemma after_reads_container_type:
  "container_type (after_reads n self) = container_type self"
  by (induction n) (simp_all add: after_reads_def read_line_container_type)

lemma read_line_Container:
  assumes "fst (read_line self) = Inr (Some (Container c))"
  shows "\<exists>ctor. container_type self = Some ctor \<and>
           ctor (fst (read_items (file_handles self))) = Inr c"
proof (cases "container_type self")
  case None
  with assms show ?thesis
    by (simp add: read_line_def case_prod_unfold split: if_splits)
next
  case (Some ctor)
  with assms have "ctor (fst (read_items (file_handles self))) = Inr c"
    by (simp add: read_line_def case_prod_unfold split: if_splits sum.splits)
  with Some show ?thesis
    by simp
qed

lemma dict_setitem_new:
  "k \<notin> fst ` set d \<Longrightarrow> dict_setitem d k v = d @ [(k, v)]"
  by (induction d) auto

lemma open_loop_distinct:
  assumes "open_loop bo fs hs = (Inr (), hs')" and "distinct fs" and "set fs \<inter> fst ` set hs = {}"
  shows "\<exists>opened. hs' = hs @ opened \<and> map fst opened = fs \<and>
           map (\<lambda>(k, h). Inr h) opened = map bo fs"
  using assms
proof (induction fs arbitrary: hs)
  case Nil
  then show ?case by simp
next
  case (Cons f fs)
  show ?case
  proof (cases "bo f")
    case (Inl e)
    with Cons.prems(1) show ?thesis by simp
  next
    case (Inr h)
    have new: "dict_setitem hs f h = hs @ [(f, h)]"
      using Cons.prems(3) by (simp add: dict_setitem_new)
    have rest: "open_loop bo fs (hs @ [(f, h)]) = (Inr (), hs')"
      using Cons.prems(1) Inr new by simp
    have d: "distinct fs"
      using Cons.prems(2) by simp
    have disj: "set fs \<inter> fst ` set (hs @ [(f, h)]) = {}"
      using Cons.prems(2,3) by auto
    from Cons.IH [OF rest d disj]
    obtain opened where o: "hs' = (hs @ [(f, h)]) @ opened" "map fst opened = fs"
      "map (\<lambda>(k, h). Inr h) opened = map bo fs"
      by (elim exE conjE)
    have "hs' = hs @ ((f, h) # opened) \<and> map fst ((f, h) # opened) = f # fs \<and>
           map (\<lambda>(k, h). Inr h) ((f, h) # opened) = map bo (f # fs)"
      using o Inr by simp
    then show ?thesis by (rule exI)
  qed
qed

text \<open>
  C6 (amended). For a reader built over pairwise distinct paths, after \<open>open\<close> has
  returned there are as many handles as paths, the \<open>i\<close>-th handle is the one opened for the
  \<open>i\<close>-th path, and this stays so over any number of \<open>read_line\<close> calls: in each call the
  \<open>i\<close>-th item is the line read from the handle of the \<open>i\<close>-th path, a tuple that the call
  returns is the list of these items, and a container that it returns is what the
  configured constructor makes of that same list, in that order.
\<close>

theorem open_then_read_in_file_order:
  assumes "distinct fs" and "open_swarm bo (init fs ct) = (Inr (), s)"
  shows "length (file_handles s) = length fs \<and>
    map fst (file_handles s) = fs \<and>
    (\<forall>i<length fs. bo (fs ! i) = Inr (snd (file_handles s ! i))) \<and>
    (\<forall>n. map fst (file_handles (after_reads n s)) = fs \<and>
      (\<forall>i<length fs.
         fst (read_items (file_handles (after_reads n s))) ! i =
           fst (read_line_or_default (((\<lambda>h. snd (readline h)) ^^ n) (snd (file_handles s ! i))) None)) \<and>
      (\<forall>items. fst (read_line (after_reads n s)) = Inr (Some (Tuple items)) \<longrightarrow>
         items = fst (read_items (file_handles (after_reads n s)))) \<and>
      (\<forall>c. fst (read_line (after_reads n s)) = Inr (Some (Container c)) \<longrightarrow>
         (\<exists>ctor. ct = Some ctor \<and>
            ctor (fst (read_items (file_handles (after_reads n s)))) = Inr c)))"
proof -
  from assms(2) have loop: "open_loop bo fs [] = (Inr (), file_handles s)"
    by (auto simp add: open_swarm_def init_def split: prod.splits)
  from open_loop_distinct [OF loop assms(1)]
  have keys: "map fst (file_handles s) = fs"
    and vals: "map (\<lambda>(k, h). Inr h) (file_handles s) = map bo fs"
    by auto
  from keys have len: "length (file_handles s) = length fs"
    by (metis length_map)
  have opened: "bo (fs ! i) = Inr (snd (file_handles s ! i))" if "i < length fs" for i
  proof -
    have "map bo fs ! i = map (\<lambda>(k, h). Inr h) (file_handles s) ! i"
      by (simp only: vals)
    with that len show ?thesis
      by (simp add: case_prod_unfold)
  qed
  have keys_n: "map fst (file_handles (after_reads n s)) = fs" for n
    by (simp add: after_reads_handles keys case_prod_unfold comp_def)
  have slot: "fst (read_items (file_handles (after_reads n s))) ! i =
      fst (read_line_or_default (((\<lambda>h. snd (readline h)) ^^ n) (snd (file_handles s ! i))) None)"
    if "i < length fs" for n i
    using that len by (simp add: read_items_eq after_reads_handles case_prod_unfold)
  have tuple: "items = fst (read_items (file_handles (after_reads n s)))"
    if "fst (read_line (after_reads n s)) = Inr (Some (Tuple items))" for n items
    using that by (auto simp add: read_line_def split: prod.splits if_splits option.splits sum.splits)
  from assms(2) have "container_type s = ct"
    by (auto simp add: open_swarm_def init_def split: prod.splits)
  then have ct_n: "container_type (after_reads n s) = ct" for n
    by (simp add: after_reads_container_type)
  have container: "\<exists>ctor. ct = Some ctor \<and>
      ctor (fst (read_items (file_handles (after_reads n s)))) = Inr c"
    if "fst (read_line (after_reads n s)) = Inr (Some (Container c))" for n c
    using read_line_Container [OF that] by (simp add: ct_n)
  have opened': "\<forall>i<length fs. bo (fs ! i) = Inr (snd (file_handles s ! i))"
    by (intro allI impI) (rule opened)
  have slot': "\<forall>i<length fs.
         fst (read_items (file_handles (after_reads n s))) ! i =
           fst (read_line_or_default (((\<lambda>h. snd (readline h)) ^^ n) (snd (file_handles s ! i))) None)"
    for n
    by (intro allI impI) (rule slot)
  have tuple': "\<forall>items. fst (read_line (after_reads n s)) = Inr (Some (Tuple items)) \<longrightarrow>
         items = fst (read_items (file_handles (after_reads n s)))" for n
    by (intro allI impI) (rule tuple)
  have container': "\<forall>c. fst (read_line (after_reads n s)) = Inr (Some (Container c)) \<longrightarrow>
         (\<exists>ctor. ct = Some ctor \<and>
            ctor (fst (read_items (file_handles (after_reads n s)))) = Inr c)" for n
    by (intro allI impI) (rule container)
  have reads: "map fst (file_handles (after_reads n s)) = fs \<and>
      (\<forall>i<length fs.
         fst (read_items (file_handles (after_reads n s))) ! i =
           fst (read_line_or_default (((\<lambda>h. snd (readline h)) ^^ n) (snd (file_handles s ! i))) None)) \<and>
      (\<forall>items. fst (read_line (after_reads n s)) = Inr (Some (Tuple items)) \<longrightarrow>
         items = fst (read_items (file_handles (after_reads n s)))) \<and>
      (\<forall>c. fst (read_line (after_reads n s)) = Inr (Some (Container c)) \<longrightarrow>
         (\<exists>ctor. ct = Some ctor \<and>
            ctor (fst (read_items (file_handles (after_reads n s)))) = Inr c))" for n
    by (rule conjI [OF keys_n [of n] conjI [OF slot' [of n] conjI [OF tuple' [of n] container' [of n]]]])
  show ?thesis
    by (rule conjI [OF len conjI [OF keys conjI [OF opened' allI [OF reads]]]])
qed

theorem open_then_read_in_file_order_witness:
  "distinct [''a'', ''b''] \<and>
   open_swarm (\<lambda>f. Inr \<lparr>buffer = f, closed = False, close_error = None\<rparr>)
       (init [''a'', ''b''] (None :: (string option list \<Rightarrow> py_error + unit) option))
     = (Inr (), \<lparr>files = [''a'', ''b''],
                  file_handles = [(''a'', \<lparr>buffer = ''a'', closed = False, close_error = None\<rparr>),
                                  (''b'', \<lparr>buffer = ''b'', closed = False, close_error = None\<rparr>)],
                  container_type = None\<rparr>) \<and>
   map fst [(''a'', \<lparr>buffer = ''a'', closed = False, close_error = None\<rparr>),
            (''b'', \<lparr>buffer = ''b'', closed = False, close_error = None\<rparr>)] = [''a'', ''b'']"
proof -
  have d: "distinct [''a'', ''b'']"
    by simp
  have o: "open_swarm (\<lambda>f. Inr \<lparr>buffer = f, closed = False, close_error = None\<rparr>)
       (init [''a'', ''b''] (None :: (string option list \<Rightarrow> py_error + unit) option))
     = (Inr (), \<lparr>files = [''a'', ''b''],
                  file_handles = [(''a'', \<lparr>buffer = ''a'', closed = False, close_error = None\<rparr>),
                                  (''b'', \<lparr>buffer = ''b'', closed = False, close_error = None\<rparr>)],
                  container_type = None\<rparr>)"
    by (simp add: open_swarm_def init_def)
  have "map fst (file_handles \<lparr>files = [''a'', ''b''],
                  file_handles = [(''a'', \<lparr>buffer = ''a'', closed = False, close_error = None\<rparr>),
                                  (''b'', \<lparr>buffer = ''b'', closed = False, close_error = None\<rparr>)],
                  container_type = (None :: (string option list \<Rightarrow> py_error + unit) option)\<rparr>)
          = [''a'', ''b'']"
    using open_then_read_in_file_order [OF d o] by (rule conjunct1 [OF conjunct2])
  with d o show ?thesis
    by simp
qed

text \<open>
  C6, as stated, fails when a path is given twice: the dictionary of handles is keyed by
  path, so opening a reader over the paths \<open>a\<close>, \<open>a\<close> succeeds and leaves one handle for
  two requested files.
\<close>

theorem open_duplicate_paths_counterexample:
  "fst (open_swarm (\<lambda>f. Inr \<lparr>buffer = ''x'', closed = False, close_error = None\<rparr>)
         (init [''a'', ''a''] (None :: (string option list \<Rightarrow> py_error + unit) option))) = Inr () \<and>
   length (file_handles (snd (open_swarm (\<lambda>f. Inr \<lparr>buffer = ''x'', closed = False, close_error = None\<rparr>)
         (init [''a'', ''a''] (None :: (string option list \<Rightarrow> py_error + unit) option))))) = 1 \<and>
   length (files (snd (open_swarm (\<lambda>f. Inr \<lparr>buffer = ''x'', closed = False, close_error = None\<rparr>)
         (init [''a'', ''a''] (None :: (string option list \<Rightarrow> py_error + unit) option))))) = 2"
  by (simp add: open_swarm_def init_def)

lemma split_line_terminated:
  "CHR 0x0A \<notin> set l \<Longrightarrow> split_line (l @ CHR 0x0A # rest) = (l @ [CHR 0x0A], rest)"
  by (induction l) auto

lemma read_line_absent_iff:
  "(fst (read_line self) = Inr None) =
     (\<forall>item\<in>set (fst (read_items (file_handles self))). item = None \<or> item = Some [])"
proof -
  obtain items hs where ri: "read_items (file_handles self) = (items, hs)"
    by (cases "read_items (file_handles self)")
  have "truthy item = (item \<noteq> None \<and> item \<noteq> Some [])" for item
    by (cases item) (simp_all add: truthy_def)
  then have t: "(\<not> list_ex truthy items) = (\<forall>item\<in>set items. item = None \<or> item = Some [])"
    by (simp add: list_ex_iff)
  show ?thesis
  proof (cases "list_ex truthy items")
    case False
    then show ?thesis
      using t by (simp add: read_line_def ri)
  next
    case True
    then have "fst (read_line self) \<noteq> Inr None"
      by (simp add: read_line_def ri split: option.split sum.split)
    then show ?thesis
      using True t by (simp add: ri)
  qed
qed

lemma read_line_two_open:
  assumes "file_handles self =
      [(fa, \<lparr>buffer = A, closed = False, close_error = ca\<rparr>),
       (fb, \<lparr>buffer = B, closed = False, close_error = cb\<rparr>)]"
    and "container_type self = None"
  shows "read_line self =
      (if fst (split_line A) = [] \<and> fst (split_line B) = [] then Inr None
       else Inr (Some (Tuple [Some (fst (split_line A)), Some (fst (split_line B))])),
       self\<lparr>file_handles :=
         [(fa, \<lparr>buffer = snd (split_line A), closed = False, close_error = ca\<rparr>),
          (fb, \<lparr>buffer = snd (split_line B), closed = False, close_error = cb\<rparr>)]\<rparr>)"
  using assms
  by (simp add: read_line_def read_line_or_default_def readline_def truthy_def
        case_prod_unfold)

lemma read_line_three_two:
  assumes fh: "file_handles s0 =
      [(fa, \<lparr>buffer = a1 @ CHR 0x0A # a2 @ CHR 0x0A # a3 @ [CHR 0x0A], closed = False,
             close_error = ca\<rparr>),
       (fb, \<lparr>buffer = b1 @ CHR 0x0A # b2 @ [CHR 0x0A], closed = False, close_error = cb\<rparr>)]"
    and ct: "container_type s0 = None"
    and nl: "CHR 0x0A \<notin> set a1 \<union> set a2 \<union> set a3 \<union> set b1 \<union> set b2"
  shows "fst (read_line s0) = Inr (Some (Tuple [Some (a1 @ [CHR 0x0A]), Some (b1 @ [CHR 0x0A])])) \<and>
     fst (read_line (after_reads 1 s0))
       = Inr (Some (Tuple [Some (a2 @ [CHR 0x0A]), Some (b2 @ [CHR 0x0A])])) \<and>
     fst (read_line (after_reads 2 s0)) = Inr (Some (Tuple [Some (a3 @ [CHR 0x0A]), Some []])) \<and>
     fst (read_line (after_reads 3 s0)) = Inr None"
proof -
  define s1 where "s1 = s0\<lparr>file_handles :=
      [(fa, \<lparr>buffer = a2 @ CHR 0x0A # a3 @ [CHR 0x0A], closed = False, close_error = ca\<rparr>),
       (fb, \<lparr>buffer = b2 @ [CHR 0x0A], closed = False, close_error = cb\<rparr>)]\<rparr>"
  define s2 where "s2 = s1\<lparr>file_handles :=
      [(fa, \<lparr>buffer = a3 @ [CHR 0x0A], closed = False, close_error = ca\<rparr>),
       (fb, \<lparr>buffer = [], closed = False, close_error = cb\<rparr>)]\<rparr>"
  define s3 where "s3 = s2\<lparr>file_handles :=
      [(fa, \<lparr>buffer = [], closed = False, close_error = ca\<rparr>),
       (fb, \<lparr>buffer = [], closed = False, close_error = cb\<rparr>)]\<rparr>"
  have sp: "split_line (a1 @ CHR 0x0A # a2 @ CHR 0x0A # a3 @ [CHR 0x0A])
              = (a1 @ [CHR 0x0A], a2 @ CHR 0x0A # a3 @ [CHR 0x0A])"
    "split_line (a2 @ CHR 0x0A # a3 @ [CHR 0x0A]) = (a2 @ [CHR 0x0A], a3 @ [CHR 0x0A])"
    "split_line (a3 @ [CHR 0x0A]) = (a3 @ [CHR 0x0A], [])"
    "split_line (b1 @ CHR 0x0A # b2 @ [CHR 0x0A]) = (b1 @ [CHR 0x0A], b2 @ [CHR 0x0A])"
    "split_line (b2 @ [CHR 0x0A]) = (b2 @ [CHR 0x0A], [])"
    using nl by (simp_all add: split_line_terminated)
  have r0: "read_line s0 =
      (Inr (Some (Tuple [Some (a1 @ [CHR 0x0A]), Some (b1 @ [CHR 0x0A])])), s1)"
    unfolding s1_def by (simp add: read_line_two_open [OF fh ct] sp)
  have fh1: "file_handles s1 =
      [(fa, \<lparr>buffer = a2 @ CHR 0x0A # a3 @ [CHR 0x0A], closed = False, close_error = ca\<rparr>),
       (fb, \<lparr>buffer = b2 @ [CHR 0x0A], closed = False, close_error = cb\<rparr>)]"
    and ct1: "container_type s1 = None"
    unfolding s1_def using ct by simp_all
  have r1: "read_line s1 =
      (Inr (Some (Tuple [Some (a2 @ [CHR 0x0A]), Some (b2 @ [CHR 0x0A])])), s2)"
    unfolding s2_def by (simp add: read_line_two_open [OF fh1 ct1] sp)
  have fh2: "file_handles s2 =
      [(fa, \<lparr>buffer = a3 @ [CHR 0x0A], closed = False, close_error = ca\<rparr>),
       (fb, \<lparr>buffer = [], closed = False, close_error = cb\<rparr>)]"
    and ct2: "container_type s2 = None"
    unfolding s2_def using ct1 by simp_all
  have r2: "read_line s2 = (Inr (Some (Tuple [Some (a3 @ [CHR 0x0A]), Some []])), s3)"
    unfolding s3_def by (simp add: read_line_two_open [OF fh2 ct2] sp)
  have fh3: "file_handles s3 =
      [(fa, \<lparr>buffer = [], closed = False, close_error = ca\<rparr>),
       (fb, \<lparr>buffer = [], closed = False, close_error = cb\<rparr>)]"
    and ct3: "container_type s3 = None"
    unfolding s3_def using ct2 by simp_all
  have r3: "fst (read_line s3) = Inr None"
    by (simp add: read_line_two_open [OF fh3 ct3])
  have a1: "after_reads (Suc 0) s0 = s1"
    by (simp add: after_reads_def r0)
  have a2: "after_reads (Suc (Suc 0)) s0 = s2"
    by (simp add: after_reads_def r0 r1)
  have a3: "after_reads (Suc (Suc (Suc 0))) s0 = s3"
    by (simp add: after_reads_def r0 r1 r2)
  show ?thesis
    by (simp add: numeral_2_eq_2 numeral_3_eq_3 a1 a2 a3 r0 r1 r2 r3)
qed

text \<open>
  C5 (amended). Each \<open>read_line\<close> call reads one line from every handle, in dictionary
  order, keeping that order. A handle at its end contributes the empty string to its slot
  without failing the call; the placeholder \<open>None\<close> appears only where \<open>readline\<close> raises,
  as on a closed handle. The call returns \<open>None\<close> exactly when every slot is the empty
  string or \<open>None\<close>. Over two open files of three and two lines the first two calls
  return the pairs of lines, the third the pair of the third line and the empty string,
  the fourth \<open>None\<close>.
\<close>

theorem read_line_slots:
  "fst (read_items hs) = map (\<lambda>(k, f). fst (read_line_or_default f None)) hs \<and>
   map fst (snd (read_items hs)) = map fst hs \<and>
   (\<not> closed f \<and> buffer f = [] \<longrightarrow> read_line_or_default f None = (Some [], f)) \<and>
   (closed f \<longrightarrow> read_line_or_default f None = (None, f)) \<and>
   ((fst (read_line self) = Inr None) =
      (\<forall>item\<in>set (fst (read_items (file_handles self))). item = None \<or> item = Some [])) \<and>
   (file_handles s0 =
      [(fa, \<lparr>buffer = a1 @ CHR 0x0A # a2 @ CHR 0x0A # a3 @ [CHR 0x0A], closed = False,
             close_error = ca\<rparr>),
       (fb, \<lparr>buffer = b1 @ CHR 0x0A # b2 @ [CHR 0x0A], closed = False, close_error = cb\<rparr>)] \<and>
    container_type s0 = None \<and>
    CHR 0x0A \<notin> set a1 \<union> set a2 \<union> set a3 \<union> set b1 \<union> set b2 \<longrightarrow>
      fst (read_line s0) = Inr (Some (Tuple [Some (a1 @ [CHR 0x0A]), Some (b1 @ [CHR 0x0A])])) \<and>
      fst (read_line (after_reads 1 s0))
        = Inr (Some (Tuple [Some (a2 @ [CHR 0x0A]), Some (b2 @ [CHR 0x0A])])) \<and>
      fst (read_line (after_reads 2 s0)) = Inr (Some (Tuple [Some (a3 @ [CHR 0x0A]), Some []])) \<and>
      fst (read_line (after_reads 3 s0)) = Inr None)"
proof (intro conjI impI)
  show "fst (read_items hs) = map (\<lambda>(k, f). fst (read_line_or_default f None)) hs"
    by (simp add: read_items_eq)
  show "map fst (snd (read_items hs)) = map fst hs"
    by (simp add: read_items_eq case_prod_unfold comp_def)
  show "read_line_or_default f None = (Some [], f)" if "\<not> closed f \<and> buffer f = []"
    using that by (simp add: read_line_or_default_def readline_def)
  show "read_line_or_default f None = (None, f)" if "closed f"
    using that by (simp add: read_line_or_default_def readline_def)
  show "(fst (read_line self) = Inr None) =
      (\<forall>item\<in>set (fst (read_items (file_handles self))). item = None \<or> item = Some [])"
    by (rule read_line_absent_iff)
next
  assume a: "file_handles s0 =
      [(fa, \<lparr>buffer = a1 @ CHR 0x0A # a2 @ CHR 0x0A # a3 @ [CHR 0x0A], closed = False,
             close_error = ca\<rparr>),
       (fb, \<lparr>buffer = b1 @ CHR 0x0A # b2 @ [CHR 0x0A], closed = False, close_error = cb\<rparr>)] \<and>
    container_type s0 = None \<and>
    CHR 0x0A \<notin> set a1 \<union> set a2 \<union> set a3 \<union> set b1 \<union> set b2"
  note ex = read_line_three_two [OF conjunct1 [OF a] conjunct1 [OF conjunct2 [OF a]]
      conjunct2 [OF conjunct2 [OF a]]]
  show "fst (read_line s0) = Inr (Some (Tuple [Some (a1 @ [CHR 0x0A]), Some (b1 @ [CHR 0x0A])]))"
    using ex by (rule conjunct1)
  show "fst (read_line (after_reads 1 s0))
        = Inr (Some (Tuple [Some (a2 @ [CHR 0x0A]), Some (b2 @ [CHR 0x0A])]))"
    using ex by (rule conjunct1 [OF conjunct2])
  show "fst (read_line (after_reads 2 s0)) = Inr (Some (Tuple [Some (a3 @ [CHR 0x0A]), Some []]))"
    using ex by (rule conjunct1 [OF conjunct2 [OF conjunct2]])
  show "fst (read_line (after_reads 3 s0)) = Inr None"
    using ex by (rule conjunct2 [OF conjunct2 [OF conjunct2]])
qed

theorem read_line_slots_witness:
  "file_handles 
     \<lparr>files = [''a'', ''b''],
      file_handles =
        [(''a'', \<lparr>buffer = ''1'' @ CHR 0x0A # ''2'' @ CHR 0x0A # ''3'' @ [CHR 0x0A], closed = False,
                 close_error = None\<rparr>),
         (''b'', \<lparr>buffer = ''x'' @ CHR 0x0A # ''y'' @ [CHR 0x0A], closed = False,
                 close_error = None\<rparr>)],
      container_type = (None :: (string option list \<Rightarrow> py_error + unit) option)\<rparr> =
      [(''a'', \<lparr>buffer = ''1'' @ CHR 0x0A # ''2'' @ CHR 0x0A # ''3'' @ [CHR 0x0A], closed = False,
               close_error = None\<rparr>),
       (''b'', \<lparr>buffer = ''x'' @ CHR 0x0A # ''y'' @ [CHR 0x0A], closed = False,
               close_error = None\<rparr>)] \<and>
   container_type 
     \<lparr>files = [''a'', ''b''],
      file_handles =
        [(''a'', \<lparr>buffer = ''1'' @ CHR 0x0A # ''2'' @ CHR 0x0A # ''3'' @ [CHR 0x0A], closed = False,
                 close_error = None\<rparr>),
         (''b'', \<lparr>buffer = ''x'' @ CHR 0x0A # ''y'' @ [CHR 0x0A], closed = False,
                 close_error = None\<rparr>)],
      container_type = (None :: (string option list \<Rightarrow> py_error + unit) option)\<rparr> = None \<and>
   CHR 0x0A \<notin> set ''1'' \<union> set ''2'' \<union> set ''3'' \<union> set ''x'' \<union> set ''y'' \<and>
   fst (read_line 
     \<lparr>files = [''a'', ''b''],
      file_handles =
        [(''a'', \<lparr>buffer = ''1'' @ CHR 0x0A # ''2'' @ CHR 0x0A # ''3'' @ [CHR 0x0A], closed = False,
                 close_error = None\<rparr>),
         (''b'', \<lparr>buffer = ''x'' @ CHR 0x0A # ''y'' @ [CHR 0x0A], closed = False,
                 close_error = None\<rparr>)],
      container_type = (None :: (string option list \<Rightarrow> py_error + unit) option)\<rparr>) = Inr (Some (Tuple [Some (''1'' @ [CHR 0x0A]), Some (''x'' @ [CHR 0x0A])])) \<and>
   fst (read_line (after_reads 1 
     \<lparr>files = [''a'', ''b''],
      file_handles =
        [(''a'', \<lparr>buffer = ''1'' @ CHR 0x0A # ''2'' @ CHR 0x0A # ''3'' @ [CHR 0x0A], closed = False,
                 close_error = None\<rparr>),
         (''b'', \<lparr>buffer = ''x'' @ CHR 0x0A # ''y'' @ [CHR 0x0A], closed = False,
                 close_error = None\<rparr>)],
      container_type = (None :: (string option list \<Rightarrow> py_error + unit) option)\<rparr>))
     = Inr (Some (Tuple [Some (''2'' @ [CHR 0x0A]), Some (''y'' @ [CHR 0x0A])])) \<and>
   fst (read_line (after_reads 2 
     \<lparr>files = [''a'', ''b''],
      file_handles =
        [(''a'', \<lparr>buffer = ''1'' @ CHR 0x0A # ''2'' @ CHR 0x0A # ''3'' @ [CHR 0x0A], closed = False,
                 close_error = None\<rparr>),
         (''b'', \<lparr>buffer = ''x'' @ CHR 0x0A # ''y'' @ [CHR 0x0A], closed = False,
                 close_error = None\<rparr>)],
      container_type = (None :: (string option list \<Rightarrow> py_error + unit) option)\<rparr>)) = Inr (Some (Tuple [Some (''3'' @ [CHR 0x0A]), Some []])) \<and>
   fst (read_line (after_reads 3 
     \<lparr>files = [''a'', ''b''],
      file_handles =
        [(''a'', \<lparr>buffer = ''1'' @ CHR 0x0A # ''2'' @ CHR 0x0A # ''3'' @ [CHR 0x0A], closed = False,
                 close_error = None\<rparr>),
         (''b'', \<lparr>buffer = ''x'' @ CHR 0x0A # ''y'' @ [CHR 0x0A], closed = False,
                 close_error = None\<rparr>)],
      container_type = (None :: (string option list \<Rightarrow> py_error + unit) option)\<rparr>)) = Inr None"
proof -
  have h: "file_handles 
     \<lparr>files = [''a'', ''b''],
      file_handles =
        [(''a'', \<lparr>buffer = ''1'' @ CHR 0x0A # ''2'' @ CHR 0x0A # ''3'' @ [CHR 0x0A], closed = False,
                 close_error = None\<rparr>),
         (''b'', \<lparr>buffer = ''x'' @ CHR 0x0A # ''y'' @ [CHR 0x0A], closed = False,
                 close_error = None\<rparr>)],
      container_type = (None :: (string option list \<Rightarrow> py_error + unit) option)\<rparr> =
      [(''a'', \<lparr>buffer = ''1'' @ CHR 0x0A # ''2'' @ CHR 0x0A # ''3'' @ [CHR 0x0A], closed = False,
               close_error = None\<rparr>),
       (''b'', \<lparr>buffer = ''x'' @ CHR 0x0A # ''y'' @ [CHR 0x0A], closed = False,
               close_error = None\<rparr>)] \<and>
   container_type 
     \<lparr>files = [''a'', ''b''],
      file_handles =
        [(''a'', \<lparr>buffer = ''1'' @ CHR 0x0A # ''2'' @ CHR 0x0A # ''3'' @ [CHR 0x0A], closed = False,
                 close_error = None\<rparr>),
         (''b'', \<lparr>buffer = ''x'' @ CHR 0x0A # ''y'' @ [CHR 0x0A], closed = False,
                 close_error = None\<rparr>)],
      container_type = (None :: (string option list \<Rightarrow> py_error + unit) option)\<rparr> = None \<and>
   CHR 0x0A \<notin> set ''1'' \<union> set ''2'' \<union> set ''3'' \<union> set ''x'' \<union> set ''y''"
    by simp
  note r = read_line_slots [THEN conjunct2, THEN conjunct2, THEN conjunct2, THEN conjunct2,
      THEN conjunct2]
  from mp [OF r h] h show ?thesis
    by (elim conjE) (intro conjI; assumption)
qed

text \<open>
  C5, as stated, fails at the third call of its own example: the slot of the exhausted
  two-line file holds the empty string, not the placeholder \<open>None\<close>.
\<close>

theorem read_line_exhausted_slot_counterexample:
  "fst (read_line (after_reads 2 
     \<lparr>files = [''a'', ''b''],
      file_handles =
        [(''a'', \<lparr>buffer = ''1'' @ CHR 0x0A # ''2'' @ CHR 0x0A # ''3'' @ [CHR 0x0A], closed = False,
                 close_error = None\<rparr>),
         (''b'', \<lparr>buffer = ''x'' @ CHR 0x0A # ''y'' @ [CHR 0x0A], closed = False,
                 close_error = None\<rparr>)],
      container_type = (None :: (string option list \<Rightarrow> py_error + unit) option)\<rparr>)) = Inr (Some (Tuple [Some (''3'' @ [CHR 0x0A]), Some []])) \<and>
   fst (read_line (after_reads 2 
     \<lparr>files = [''a'', ''b''],
      file_handles =
        [(''a'', \<lparr>buffer = ''1'' @ CHR 0x0A # ''2'' @ CHR 0x0A # ''3'' @ [CHR 0x0A], closed = False,
                 close_error = None\<rparr>),
         (''b'', \<lparr>buffer = ''x'' @ CHR 0x0A # ''y'' @ [CHR 0x0A], closed = False,
                 close_error = None\<rparr>)],
      container_type = (None :: (string option list \<Rightarrow> py_error + unit) option)\<rparr>)) \<noteq> Inr (Some (Tuple [Some (''3'' @ [CHR 0x0A]), None]))"
  by (simp add: after_reads_def numeral_2_eq_2 read_line_def read_line_or_default_def
        readline_def truthy_def)

lemma close_loop_quiet:
  "fst (close_loop hs) = Inr () \<and> map fst (snd (close_loop hs)) = map fst hs \<and>
   list_all (\<lambda>(k, h). closed h) (snd (close_loop hs))"
proof (induction hs)
  case Nil
  show ?case by simp
next
  case (Cons kf hs)
  obtain k f where kf: "kf = (k, f)"
    by (cases kf)
  obtain r f' where c: "close_file f = (r, f')"
    by (cases "close_file f")
  have f': "closed f'"
    using c by (auto simp add: close_file_def split: if_splits option.splits)
  have t: "try_except_pass (close_file f) = (Inr (), f')"
    unfolding c by (cases r) (simp_all add: try_except_pass_def)
  obtain r' hs' where l: "close_loop hs = (r', hs')"
    by (cases "close_loop hs")
  from Cons.IH l f' show ?case
    by (simp add: kf t)
qed

text \<open>
  C9. \<open>close\<close> returns normally on every reader: after any number of earlier \<open>close\<close>
  calls, on a reader that was never opened (which it leaves as it is), and when closing a
  handle raises. It keeps the handles under their paths and leaves each of them closed.
\<close>

theorem close_never_raises:
  "fst (close self) = Inr () \<and>
   fst (close (after_closes n self)) = Inr () \<and>
   close (init fs ct) = (Inr (), init fs ct) \<and>
   map fst (file_handles (snd (close self))) = map fst (file_handles self) \<and>
   list_all (\<lambda>(k, h). closed h) (file_handles (snd (close self)))"
proof -
  have q: "fst (close s) = Inr ()" for s :: "'a ReadSwarm"
    using close_loop_quiet [of "file_handles s"] by (simp add: close_def case_prod_unfold)
  have "close (init fs ct) = (Inr (), init fs ct)"
    by (simp add: close_def init_def)
  moreover have "map fst (file_handles (snd (close self))) = map fst (file_handles self)"
    using close_loop_quiet [of "file_handles self"] by (simp add: close_def case_prod_unfold)
  moreover have "list_all (\<lambda>(k, h). closed h) (file_handles (snd (close self)))"
    using close_loop_quiet [of "file_handles self"] by (simp add: close_def case_prod_unfold)
  ultimately show ?thesis
    using q by simp
qed

theorem close_never_raises_witness:
  "fst (close_file \<lparr>buffer = ''x'', closed = False, close_error = Some OSError\<rparr>) = Inl OSError \<and>
   fst (close \<lparr>files = [''a''],
               file_handles = [(''a'', \<lparr>buffer = ''x'', closed = False, close_error = Some OSError\<rparr>)],
               container_type = (None :: (string option list \<Rightarrow> py_error + unit) option)\<rparr>) = Inr ()"
proof -
  have c: "fst (close_file \<lparr>buffer = ''x'', closed = False, close_error = Some OSError\<rparr>) = Inl OSError"
    by (simp add: close_file_def)
  have "fst (close \<lparr>files = [''a''],
               file_handles = [(''a'', \<lparr>buffer = ''x'', closed = False, close_error = Some OSError\<rparr>)],
               container_type = (None :: (string option list \<Rightarrow> py_error + unit) option)\<rparr>) = Inr ()"
    by (rule close_never_raises [THEN conjunct1])
  with c show ?thesis
    by (rule conjI)
qed


section \<open>Properties of the file-system facade\<close>








text \<open>
  C10. \<open>is_link\<close> answers \<open>False\<close> for every path on every file system, also one on
  which every path is a symbolic link: its result does not depend on the file system.
\<close>

theorem is_link_always_false:
  "is_link os pl = Inr False \<and> is_link (os\<lparr>islink := \<lambda>p. True\<rparr>) pl = Inr False"
  by (simp add: is_link_def catch_def)

end
